theory Spec2Isabelle
  imports Main "HOL-Library.Char_ord" "HOL-Library.List_Lexorder" "HOL-Library.Multiset"
begin

section \<open>The attendance store\<close>

text \<open>
  The program \<^verbatim>\<open>main.py\<close> keeps its data in an SQLite file with two tables.  Every
  value the program binds to a statement is a Python \<^verbatim>\<open>str\<close> (the entry widgets and the
  table widget deliver text), stored in a \<^verbatim>\<open>TEXT\<close> column; such a value is modelled as
  a \<^typ>\<open>string\<close>, the list of the bytes of its UTF-8 encoding.  SQLite compares
  \<^verbatim>\<open>TEXT\<close> values bytewise (collation \<^verbatim>\<open>BINARY\<close>), which is the lexicographic order of
  \<^typ>\<open>string\<close> with characters ordered by their code.

  A row carries the columns of its \<^verbatim>\<open>CREATE TABLE\<close> statement, named as the queries of
  the source name them (\<^verbatim>\<open>s.student_id\<close>, \<^verbatim>\<open>a.att_date\<close>, ...).
\<close>

record student_row =
  s_id :: nat
  s_student_id :: string
  s_name :: string

record attendance_row =
  a_id :: nat
  a_student_id :: string
  a_att_date :: string
  a_status :: string

text \<open>
  A table is the list of its rows in scan order, with the counter that SQLite keeps in
  \<^verbatim>\<open>sqlite_sequence\<close> for an \<^verbatim>\<open>AUTOINCREMENT\<close> key (0 while nothing was inserted).  A
  table that was not created yet is \<open>None\<close> in the database.

  The database file has one write lock.  \<^verbatim>\<open>write_lock\<close> says that a connection which
  an earlier call opened and never closed holds it, inside a transaction it never
  ended: other connections still read, but a statement of theirs that writes waits for
  the busy timeout and raises \<^verbatim>\<open>database is locked\<close>.
\<close>

record 'r table =
  rows :: "'r list"
  autoinc :: nat

record database =
  students :: "student_row table option"
  attendance :: "attendance_row table option"
  write_lock :: bool

text \<open>
  The exceptions of \<^verbatim>\<open>sqlite3\<close> that the modelled statements raise, with the text of
  \<^verbatim>\<open>str(e)\<close>.  Failures of the disk under the database file are outside the model.
\<close>

datatype sqlite_error = OperationalError string | IntegrityError string

fun error_str :: "sqlite_error \<Rightarrow> string" where
  "error_str (OperationalError m) = m"
| "error_str (IntegrityError m) = m"

definition no_such_table :: "string \<Rightarrow> sqlite_error" where
  "no_such_table t = OperationalError (''no such table: '' @ t)"

definition database_locked :: sqlite_error where
  "database_locked = OperationalError ''database is locked''"

definition empty_table :: "'r table" where
  "empty_table = \<lparr>rows = [], autoinc = 0\<rparr>"

definition empty_db :: database where
  "empty_db = \<lparr>students = None, attendance = None, write_lock = False\<rparr>"

definition student_rows :: "database \<Rightarrow> student_row list" where
  "student_rows db = (case students db of None \<Rightarrow> [] | Some t \<Rightarrow> rows t)"

definition attendance_rows :: "database \<Rightarrow> attendance_row list" where
  "attendance_rows db = (case attendance db of None \<Rightarrow> [] | Some t \<Rightarrow> rows t)"

subsection \<open>Statements\<close>

text \<open>
  \<^verbatim>\<open>CREATE TABLE [IF NOT EXISTS] name (...)\<close>: a new empty table, which is a write
  and needs the lock; or the error SQLite reports for an existing table unless
  \<^verbatim>\<open>IF NOT EXISTS\<close> was written, when the statement does nothing.
\<close>

definition create_table :: "bool \<Rightarrow> string \<Rightarrow> bool \<Rightarrow> 'r table option
    \<Rightarrow> sqlite_error + 'r table option" where
  "create_table if_not_exists name locked t =
     (case t of
        None \<Rightarrow> if locked then Inl database_locked else Inr (Some empty_table)
      | Some _ \<Rightarrow>
          if if_not_exists then Inr t
          else Inl (OperationalError (''table '' @ name @ '' already exists'')))"

text \<open>
  A row inserted without an explicit key gets the key one above the largest key the
  table holds or ever held; the row goes to the end of the scan order.
\<close>

definition insert_row :: "('r \<Rightarrow> nat) \<Rightarrow> (nat \<Rightarrow> 'r) \<Rightarrow> 'r table \<Rightarrow> 'r table" where
  "insert_row key mk t =
     (let i = Suc (fold max (map key (rows t)) (autoinc t))
      in \<lparr>rows = rows t @ [mk i], autoinc = i\<rparr>)"

text \<open>
  \<^verbatim>\<open>INSERT INTO students (student_id, name) VALUES (?, ?)\<close>.  A statement on a
  missing table fails when it is prepared; a prepared statement that writes needs the
  lock first.  The column \<^verbatim>\<open>student_id\<close> is \<^verbatim>\<open>UNIQUE\<close>; a failing statement changes
  no table.
\<close>

definition sql_insert_student :: "string \<Rightarrow> string \<Rightarrow> database \<Rightarrow> sqlite_error + database" where
  "sql_insert_student student_id name db =
     (case students db of
        None \<Rightarrow> Inl (no_such_table ''students'')
      | Some t \<Rightarrow>
          if write_lock db then Inl database_locked
          else if student_id \<in> set (map s_student_id (rows t))
          then Inl (IntegrityError ''UNIQUE constraint failed: students.student_id'')
          else Inr (db\<lparr>students := Some (insert_row s_id
                 (\<lambda>i. \<lparr>s_id = i, s_student_id = student_id, s_name = name\<rparr>) t)\<rparr>))"

text \<open>
  \<^verbatim>\<open>SELECT student_id, name FROM students ORDER BY name\<close>.  Rows with equal names are
  returned in scan order.
\<close>

definition sql_select_students :: "database \<Rightarrow> sqlite_error + (string \<times> string) list" where
  "sql_select_students db =
     (case students db of
        None \<Rightarrow> Inl (no_such_table ''students'')
      | Some t \<Rightarrow> Inr (map (\<lambda>s. (s_student_id s, s_name s)) (sort_key s_name (rows t))))"

text \<open>\<^verbatim>\<open>DELETE FROM attendance WHERE att_date=?\<close>\<close>

definition sql_delete_attendance :: "string \<Rightarrow> database \<Rightarrow> sqlite_error + database" where
  "sql_delete_attendance att_date db =
     (case attendance db of
        None \<Rightarrow> Inl (no_such_table ''attendance'')
      | Some t \<Rightarrow>
          if write_lock db then Inl database_locked
          else Inr (db\<lparr>attendance := Some (t\<lparr>rows := filter (\<lambda>a. a_att_date a \<noteq> att_date) (rows t)\<rparr>)\<rparr>))"

text \<open>
  \<^verbatim>\<open>INSERT INTO attendance (student_id, att_date, status) VALUES (?, ?, ?)\<close>.  The
  table has no uniqueness constraint besides its key, and SQLite does not enforce the
  \<^verbatim>\<open>FOREIGN KEY\<close> clause unless the connection switches that on, which the program
  never does.
\<close>

definition sql_insert_attendance :: "string \<Rightarrow> string \<Rightarrow> string \<Rightarrow> database
    \<Rightarrow> sqlite_error + database" where
  "sql_insert_attendance student_id att_date status db =
     (case attendance db of
        None \<Rightarrow> Inl (no_such_table ''attendance'')
      | Some t \<Rightarrow>
          if write_lock db then Inl database_locked
          else Inr (db\<lparr>attendance := Some (insert_row a_id
                 (\<lambda>i. \<lparr>a_id = i, a_student_id = student_id, a_att_date = att_date,
                        a_status = status\<rparr>) t)\<rparr>))"

text \<open>
  The query of \<^verbatim>\<open>get_attendance_for_date\<close>:
  \<^verbatim>\<open>SELECT s.student_id, s.name, IFNULL(a.status, 'Absent') FROM students s
  LEFT JOIN attendance a ON s.student_id = a.student_id AND a.att_date=? ORDER BY s.name\<close>.
  The left join pairs every student with each attendance row that satisfies the
  \<^verbatim>\<open>ON\<close> condition, and with no row (all columns of \<^verbatim>\<open>a\<close> are \<^verbatim>\<open>NULL\<close>) when there is
  none.
\<close>

definition left_join :: "string \<Rightarrow> student_row list \<Rightarrow> attendance_row list
    \<Rightarrow> (student_row \<times> attendance_row option) list" where
  "left_join att_date ss as =
     concat (map (\<lambda>s.
       (case filter (\<lambda>a. s_student_id s = a_student_id a \<and> a_att_date a = att_date) as of
          [] \<Rightarrow> [(s, None)]
        | ms \<Rightarrow> map (\<lambda>a. (s, Some a)) ms)) ss)"

definition view_row :: "student_row \<times> attendance_row option \<Rightarrow> string \<times> string \<times> string" where
  "view_row p =
     (s_student_id (fst p), s_name (fst p),
      (case snd p of None \<Rightarrow> ''Absent'' | Some a \<Rightarrow> a_status a))"

definition sql_select_attendance :: "string \<Rightarrow> database
    \<Rightarrow> sqlite_error + (string \<times> string \<times> string) list" where
  "sql_select_attendance att_date db =
     (case students db of
        None \<Rightarrow> Inl (no_such_table ''students'')
      | Some st \<Rightarrow>
         (case attendance db of
            None \<Rightarrow> Inl (no_such_table ''attendance'')
          | Some at \<Rightarrow>
              Inr (map view_row
                    (sort_key (\<lambda>p. s_name (fst p)) (left_join att_date (rows st) (rows at))))))"

section \<open>The functions of the data layer\<close>

text \<open>
  Each function opens a connection, runs its statements and closes the connection; the
  tables change when \<^verbatim>\<open>commit\<close> is reached, and stay as they were when a statement
  raises before that.  A function is modelled as taking the stored database and
  returning its result, or the exception it raises, together with the stored database
  afterwards.

  Only the path that returns normally reaches \<^verbatim>\<open>close\<close>.  When a statement raises,
  in \<^verbatim>\<open>add_student\<close> also where the exception is caught, the connection stays open
  until the interpreter finalises it.  The module \<^verbatim>\<open>sqlite3\<close> begins a transaction
  before an \<^verbatim>\<open>INSERT\<close> or \<^verbatim>\<open>DELETE\<close>: a statement that failed on a constraint
  had begun to write, so its connection keeps the write lock, as does a connection
  whose earlier statement wrote; a first statement that could not be prepared, or could
  not get the lock, holds nothing.  \<^verbatim>\<open>CREATE TABLE\<close> runs outside a transaction.
\<close>

definition leak :: "sqlite_error \<Rightarrow> database \<Rightarrow> database" where
  "leak e db =
     (case e of
        IntegrityError _ \<Rightarrow> db\<lparr>write_lock := True\<rparr>
      | OperationalError _ \<Rightarrow> db)"

text \<open>
  The garbage collector of Python finalises the connections left open, which ends
  their transactions; it may run between any two calls, and ending the program does
  the same.
\<close>

definition collect :: "database \<Rightarrow> database" where
  "collect db = db\<lparr>write_lock := False\<rparr>"

definition init_db :: "database \<Rightarrow> (sqlite_error + unit) \<times> database" where
  "init_db db =
     (case create_table True ''students'' (write_lock db) (students db) of
        Inl e \<Rightarrow> (Inl e, db)
      | Inr st \<Rightarrow>
         (case create_table True ''attendance'' (write_lock db) (attendance db) of
            Inl e \<Rightarrow> (Inl e, db\<lparr>students := st\<rparr>)
          | Inr at \<Rightarrow> (Inr (), db\<lparr>students := st, attendance := at\<rparr>)))"

definition add_student :: "string \<Rightarrow> string \<Rightarrow> database \<Rightarrow> (bool \<times> string) \<times> database" where
  "add_student student_id name db =
     (case sql_insert_student student_id name db of
        Inr db' \<Rightarrow> ((True, ''Student added.''), db')
      | Inl e \<Rightarrow> ((False, error_str e), leak e db))"

definition get_students :: "database \<Rightarrow> (sqlite_error + (string \<times> string) list) \<times> database" where
  "get_students db = (sql_select_students db, db)"

text \<open>
  \<^verbatim>\<open>records\<close> is a Python \<^verbatim>\<open>dict\<close>: the list of its items in iteration order, no key
  occurring twice.
\<close>

definition is_dict :: "('k \<times> 'v) list \<Rightarrow> bool" where
  "is_dict items = distinct (map fst items)"

fun insert_marks :: "string \<Rightarrow> (string \<times> string) list \<Rightarrow> database \<Rightarrow> sqlite_error + database" where
  "insert_marks att_date [] db = Inr db"
| "insert_marks att_date ((student_id, status) # items) db =
     (case sql_insert_attendance student_id att_date status db of
        Inl e \<Rightarrow> Inl e
      | Inr db' \<Rightarrow> insert_marks att_date items db')"

definition mark_attendance :: "string \<Rightarrow> (string \<times> string) list \<Rightarrow> database
    \<Rightarrow> (sqlite_error + unit) \<times> database" where
  "mark_attendance att_date records db =
     (case sql_delete_attendance att_date db of
        Inl e \<Rightarrow> (Inl e, leak e db)
      | Inr db1 \<Rightarrow>
         (case insert_marks att_date records db1 of
            Inl e \<Rightarrow> (Inl e, db\<lparr>write_lock := True\<rparr>)
          | Inr db2 \<Rightarrow> (Inr (), db2)))"

definition get_attendance_for_date :: "string \<Rightarrow> database
    \<Rightarrow> (sqlite_error + (string \<times> string \<times> string) list) \<times> database" where
  "get_attendance_for_date att_date db = (sql_select_attendance att_date db, db)"

subsection \<open>Export\<close>

text \<open>
  \<^verbatim>\<open>csv.writer(f)\<close> writes in the dialect \<^verbatim>\<open>excel\<close>: fields separated by a comma, a
  field put between double quotes when it holds a comma, a double quote, a carriage
  return or a line feed, a double quote inside such a field written twice, and every
  row ended by carriage return and line feed.  A row of one empty field is written as
  two double quotes.
\<close>

definition COMMA :: char where "COMMA = CHR '',''"
definition DQUOTE :: char where "DQUOTE = CHR 0x22"
definition CR :: char where "CR = CHR 0x0D"
definition LF :: char where "LF = CHR 0x0A"

definition csv_special :: "char \<Rightarrow> bool" where
  "csv_special c = (c = COMMA \<or> c = DQUOTE \<or> c = CR \<or> c = LF)"

definition csv_escape :: "string \<Rightarrow> string" where
  "csv_escape f = concat (map (\<lambda>c. if c = DQUOTE then [DQUOTE, DQUOTE] else [c]) f)"

definition csv_field :: "string \<Rightarrow> string" where
  "csv_field f =
     (if list_ex csv_special f then [DQUOTE] @ csv_escape f @ [DQUOTE] else f)"

fun str_join :: "string \<Rightarrow> string list \<Rightarrow> string" where
  "str_join sep [] = []"
| "str_join sep [x] = x"
| "str_join sep (x # y # ys) = x @ sep @ str_join sep (y # ys)"

definition writerow :: "string list \<Rightarrow> string" where
  "writerow row =
     (let r = str_join [COMMA] (map csv_field row)
      in (if r = [] \<and> row \<noteq> [] then [DQUOTE, DQUOTE] else r) @ [CR, LF])"

text \<open>
  A path of the file system holds a file, or nothing yet, or cannot be opened for
  writing (\<^verbatim>\<open>open\<close> raises \<^verbatim>\<open>OSError\<close>).  The file is opened with \<^verbatim>\<open>newline=''\<close>, so
  the row ends reach it as written.  The paths modelled are those of files other than
  the database file.
\<close>

datatype slot = Vacant | File string | Denied

type_synonym filesystem = "string \<Rightarrow> slot"

datatype exn = SqliteError sqlite_error | OSError string

fun write_rows :: "string \<Rightarrow> (string \<times> string \<times> string) list \<Rightarrow> string" where
  "write_rows att_date [] = []"
| "write_rows att_date ((sid, name, status) # rows') =
     writerow [sid, name, status, att_date] @ write_rows att_date rows'"

definition export_csv :: "string \<Rightarrow> string \<Rightarrow> database \<times> filesystem
    \<Rightarrow> (exn + unit) \<times> database \<times> filesystem" where
  "export_csv att_date dest_path w =
     (case get_attendance_for_date att_date (fst w) of
        (Inl e, db) \<Rightarrow> (Inl (SqliteError e), db, snd w)
      | (Inr rows', db) \<Rightarrow>
          if snd w dest_path = Denied then (Inl (OSError dest_path), db, snd w)
          else (Inr (), db,
                (snd w)(dest_path := File
                  (writerow [''Student ID'', ''Name'', ''Status'', ''Date'']
                   @ write_rows att_date rows'))))"

section \<open>The view panel\<close>

text \<open>
  \<^verbatim>\<open>str.strip()\<close> removes the white space of Python from both ends: the characters
  U+0009 to U+000D, U+001C to U+0020, U+0085, U+00A0, U+1680, U+2000 to U+200A, U+2028,
  U+2029, U+202F, U+205F and U+3000, here in their UTF-8 encoding.
\<close>

definition space1 :: "char \<Rightarrow> bool" where
  "space1 c = (of_char c \<in> {9, 10, 11, 12, 13, 28, 29, 30, 31, 32 :: nat})"

definition space2 :: "char \<Rightarrow> char \<Rightarrow> bool" where
  "space2 c1 c2 = (of_char c1 = (0xC2 :: nat) \<and> of_char c2 \<in> {0x85, 0xA0 :: nat})"

definition space3 :: "char \<Rightarrow> char \<Rightarrow> char \<Rightarrow> bool" where
  "space3 c1 c2 c3 =
     (let b1 = of_char c1 :: nat; b2 = of_char c2 :: nat; b3 = of_char c3 :: nat
      in (b1 = 0xE1 \<and> b2 = 0x9A \<and> b3 = 0x80)
       \<or> (b1 = 0xE2 \<and> b2 = 0x80 \<and> (0x80 \<le> b3 \<and> b3 \<le> 0x8A \<or> b3 \<in> {0xA8, 0xA9, 0xAF}))
       \<or> (b1 = 0xE2 \<and> b2 = 0x81 \<and> b3 = 0x9F)
       \<or> (b1 = 0xE3 \<and> b2 = 0x80 \<and> b3 = 0x80))"

fun lstrip :: "string \<Rightarrow> string" where
  "lstrip (c1 # c2 # c3 # cs) =
     (if space1 c1 then lstrip (c2 # c3 # cs)
      else if space2 c1 c2 then lstrip (c3 # cs)
      else if space3 c1 c2 c3 then lstrip cs
      else c1 # c2 # c3 # cs)"
| "lstrip [c1, c2] =
     (if space1 c1 then lstrip [c2] else if space2 c1 c2 then [] else [c1, c2])"
| "lstrip [c1] = (if space1 c1 then [] else [c1])"
| "lstrip [] = []"

fun rstrip_rev :: "string \<Rightarrow> string" where
  "rstrip_rev (c3 # c2 # c1 # cs) =
     (if space1 c3 then rstrip_rev (c2 # c1 # cs)
      else if space2 c2 c3 then rstrip_rev (c1 # cs)
      else if space3 c1 c2 c3 then rstrip_rev cs
      else c3 # c2 # c1 # cs)"
| "rstrip_rev [c2, c1] =
     (if space1 c2 then rstrip_rev [c1] else if space2 c1 c2 then [] else [c2, c1])"
| "rstrip_rev [c1] = (if space1 c1 then [] else [c1])"
| "rstrip_rev [] = []"

definition py_strip :: "string \<Rightarrow> string" where
  "py_strip s = rev (rstrip_rev (rev (lstrip s)))"

text \<open>
  Of the window, the entry \<^verbatim>\<open>view_date\<close> and the text widget \<^verbatim>\<open>txt_view\<close>: the text
  each holds.  \<^verbatim>\<open>show_attendance_view\<close> empties the widget and inserts one text; an
  exception of the query leaves the widget as it was.
\<close>

record app =
  view_date :: string
  txt_view :: string

definition view_line :: "string \<times> string \<times> string \<Rightarrow> string" where
  "view_line r = fst r @ '' | '' @ fst (snd r) @ '' -> '' @ snd (snd r)"

definition show_attendance_view :: "app \<times> database \<Rightarrow> (sqlite_error + unit) \<times> app \<times> database" where
  "show_attendance_view w =
     (let att_date = py_strip (view_date (fst w))
      in case get_attendance_for_date att_date (snd w) of
           (Inl e, db) \<Rightarrow> (Inl e, fst w, db)
         | (Inr rows', db) \<Rightarrow>
             if rows' = [] then (Inr (), (fst w)\<lparr>txt_view := ''No students found.'' @ [LF]\<rparr>, db)
             else (Inr (), (fst w)\<lparr>txt_view := str_join [LF] (map view_line rows')\<rparr>, db))"

section \<open>Notions of the specification\<close>

text \<open>
  The marks stored for a date, as pairs of student id and status in scan order; the
  stored mark of one student for a date; and the attendance view as the specification
  describes it: one row per student of the roster in order of name, with the stored
  mark, or \<^verbatim>\<open>Absent\<close> when there is none.
\<close>

definition marks_on :: "string \<Rightarrow> attendance_row list \<Rightarrow> (string \<times> string) list" where
  "marks_on att_date as =
     map (\<lambda>a. (a_student_id a, a_status a)) (filter (\<lambda>a. a_att_date a = att_date) as)"

definition stored_mark :: "string \<Rightarrow> string \<Rightarrow> attendance_row list \<Rightarrow> string option" where
  "stored_mark student_id att_date as =
     map_option a_status
       (find (\<lambda>a. student_id = a_student_id a \<and> a_att_date a = att_date) as)"

definition view_of :: "string \<Rightarrow> student_row list \<Rightarrow> attendance_row list
    \<Rightarrow> (string \<times> string \<times> string) list" where
  "view_of att_date ss as =
     map (\<lambda>s. (s_student_id s, s_name s,
                (case stored_mark (s_student_id s) att_date as of
                   None \<Rightarrow> ''Absent'' | Some status \<Rightarrow> status)))
         (sort_key s_name ss)"

text \<open>At most one attendance row for each pair of student id and date.\<close>

definition mark_key :: "attendance_row \<Rightarrow> string \<times> string" where
  "mark_key a = (a_student_id a, a_att_date a)"

definition at_most_one_mark :: "database \<Rightarrow> bool" where
  "at_most_one_mark db = distinct (map mark_key (attendance_rows db))"

text \<open>A sequence of calls of \<^verbatim>\<open>mark_attendance\<close>, each a date and a \<^verbatim>\<open>dict\<close>.\<close>

definition mark_all :: "(string \<times> (string \<times> string) list) list \<Rightarrow> database \<Rightarrow> database" where
  "mark_all calls db = fold (\<lambda>c db. snd (mark_attendance (fst c) (snd c) db)) calls db"

text \<open>
  The states the program reaches: it calls \<^verbatim>\<open>init_db\<close> when it starts, on a database
  file that does not exist yet or that earlier runs left, and the window then calls the
  writing functions in any order, with the garbage collector running in between at
  any time.
\<close>

datatype command =
    InitDb
  | AddStudent string string
  | MarkAttendance string "(string \<times> string) list"
  | Collect

fun exec :: "command \<Rightarrow> database \<Rightarrow> database" where
  "exec InitDb db = snd (init_db db)"
| "exec (AddStudent student_id name) db = snd (add_student student_id name db)"
| "exec (MarkAttendance att_date records) db = snd (mark_attendance att_date records db)"
| "exec Collect db = collect db"

fun well_formed :: "command \<Rightarrow> bool" where
  "well_formed (MarkAttendance att_date records) = is_dict records"
| "well_formed _ = True"

definition run :: "command list \<Rightarrow> database" where
  "run cmds = fold exec cmds (snd (init_db empty_db))"

text \<open>
  What holds of every state reached: both tables exist, and no two attendance rows have
  the same student id and date.
\<close>

definition store_ok :: "database \<Rightarrow> bool" where
  "store_ok db = (students db \<noteq> None \<and> attendance db \<noteq> None \<and> at_most_one_mark db)"

text \<open>The store of the examples: a roster of two students, added in this order.\<close>

definition roster_example :: database where
  "roster_example = run [AddStudent ''S2'' ''Zoe'', AddStudent ''S1'' ''Amy'']"

text \<open>
  The store after the window added a student, saved a mark and had a second student
  with the same id rejected, before the garbage collector ran.
\<close>

definition rejected_example :: database where
  "rejected_example =
     run [AddStudent ''S1'' ''Amy'', MarkAttendance ''2024-01-01'' [(''S1'', ''Present'')],
          AddStudent ''S1'' ''Bob'']"

text \<open>
  Reading comma-delimited text back, with the conventions of RFC 4180 that the reader
  of Python's \<^verbatim>\<open>csv\<close> module follows: a state machine over the characters, which
  collects the current field, the fields of the current row and the finished rows.
\<close>

datatype reader_state =
  StartRecord | StartField | InField | InQuotedField | QuoteInQuotedField | AfterCR

type_synonym reader = "reader_state \<times> string \<times> string list \<times> string list list"

definition start_field :: "string list \<Rightarrow> string list list \<Rightarrow> char \<Rightarrow> reader" where
  "start_field row out c =
     (if c = DQUOTE then (InQuotedField, [], row, out)
      else if c = COMMA then (StartField, [], row @ [[]], out)
      else if c = LF then (StartRecord, [], [], out @ [row @ [[]]])
      else if c = CR then (AfterCR, [], [], out @ [row @ [[]]])
      else (InField, [c], row, out))"

definition start_record :: "string list list \<Rightarrow> char \<Rightarrow> reader" where
  "start_record out c =
     (if c = LF then (StartRecord, [], [], out @ [[]])
      else if c = CR then (AfterCR, [], [], out @ [[]])
      else start_field [] out c)"

fun csv_step :: "reader \<Rightarrow> char \<Rightarrow> reader" where
  "csv_step (StartRecord, cur, row, out) c = start_record out c"
| "csv_step (AfterCR, cur, row, out) c =
     (if c = LF then (StartRecord, [], [], out) else start_record out c)"
| "csv_step (StartField, cur, row, out) c = start_field row out c"
| "csv_step (InField, cur, row, out) c =
     (if c = COMMA then (StartField, [], row @ [cur], out)
      else if c = LF then (StartRecord, [], [], out @ [row @ [cur]])
      else if c = CR then (AfterCR, [], [], out @ [row @ [cur]])
      else (InField, cur @ [c], row, out))"
| "csv_step (InQuotedField, cur, row, out) c =
     (if c = DQUOTE then (QuoteInQuotedField, cur, row, out)
      else (InQuotedField, cur @ [c], row, out))"
| "csv_step (QuoteInQuotedField, cur, row, out) c =
     (if c = DQUOTE then (InQuotedField, cur @ [DQUOTE], row, out)
      else if c = COMMA then (StartField, [], row @ [cur], out)
      else if c = LF then (StartRecord, [], [], out @ [row @ [cur]])
      else if c = CR then (AfterCR, [], [], out @ [row @ [cur]])
      else (InField, cur @ [c], row, out))"

fun csv_finish :: "reader \<Rightarrow> string list list" where
  "csv_finish (StartRecord, cur, row, out) = out"
| "csv_finish (AfterCR, cur, row, out) = out"
| "csv_finish (st, cur, row, out) = out @ [row @ [cur]]"

definition csv_parse :: "string \<Rightarrow> string list list" where
  "csv_parse s = csv_finish (foldl csv_step (StartRecord, [], [], []) s)"

section \<open>Schema initialisation\<close>

text \<open>
  C8.  Calling \<^verbatim>\<open>init_db\<close> a second time does what the first call did and leaves the
  database as the first call left it.  A call raises nothing, except on a database
  that lacks a table while a connection left open holds the write lock (the program
  reaches no such database: it creates both tables before anything takes the lock);
  where no such connection holds the lock, in particular on an empty database, both
  tables exist afterwards, and a table that existed before the call keeps its rows and
  its counter (a table that did not exist is created empty).
\<close>

theorem init_db_idempotent:
  "init_db (snd (init_db db)) = init_db db
   \<and> fst (init_db db) =
       (if write_lock db \<and> (students db = None \<or> attendance db = None)
        then Inl database_locked else Inr ())
   \<and> students (snd (init_db db)) =
       (if write_lock db then students db
        else Some (case students db of None \<Rightarrow> empty_table | Some t \<Rightarrow> t))
   \<and> attendance (snd (init_db db)) =
       (if write_lock db then attendance db
        else Some (case attendance db of None \<Rightarrow> empty_table | Some t \<Rightarrow> t))
   \<and> write_lock (snd (init_db db)) = write_lock db"
  by (cases "write_lock db") (simp_all add: init_db_def create_table_def split: option.splits)

theorem init_db_idempotent_witness:
  "init_db (snd (init_db empty_db)) = (Inr (), snd (init_db empty_db))
   \<and> fst (init_db empty_db) = Inr ()
   \<and> students (snd (init_db empty_db)) = Some empty_table
   \<and> attendance (snd (init_db empty_db)) = Some empty_table
   \<and> init_db (snd (init_db roster_example)) = (Inr (), roster_example)"
proof -
  have e: "write_lock empty_db = False" "students empty_db = None" "attendance empty_db = None"
    by (simp_all add: empty_db_def)
  note w = init_db_idempotent[of empty_db, unfolded e, simplified]
  have r: "init_db roster_example = (Inr (), roster_example)" by code_simp
  have "init_db (snd (init_db roster_example)) = init_db roster_example"
    using init_db_idempotent[of roster_example] by blast
  with w r show ?thesis by (simp add: prod_eq_iff)
qed

section \<open>Adding a student\<close>

text \<open>
  C3.  When the roster already holds a student with id \<open>s\<close>, \<^verbatim>\<open>add_student(s, n)\<close>
  raises nothing: it returns the flag \<^verbatim>\<open>False\<close> with the message of the error of the
  database (that of the uniqueness constraint; that of the lock when a connection left
  open holds it), and both tables are the ones before the call.  What the call leaves
  behind is its connection, never closed, which holds the write lock from then on.
\<close>

theorem add_student_duplicate_rejected:
  assumes "s \<in> set (map s_student_id (student_rows db))"
  shows "add_student s n db =
      ((False, if write_lock db then ''database is locked''
               else ''UNIQUE constraint failed: students.student_id''),
       db\<lparr>write_lock := True\<rparr>)
    \<and> students (snd (add_student s n db)) = students db
    \<and> attendance (snd (add_student s n db)) = attendance db"
proof (cases "students db")
  case None
  with assms show ?thesis by (simp add: student_rows_def)
next
  case (Some t)
  show ?thesis
  proof (cases "write_lock db")
    case True
    then have "db\<lparr>write_lock := True\<rparr> = db" by (cases db) simp
    with True Some show ?thesis
      by (simp add: add_student_def sql_insert_student_def database_locked_def leak_def)
  next
    case False
    with Some assms show ?thesis
      by (simp add: student_rows_def add_student_def sql_insert_student_def leak_def)
  qed
qed

theorem add_student_duplicate_rejected_witness:
  "add_student ''S1'' ''Bob'' (run [AddStudent ''S1'' ''Alice'']) =
     ((False, ''UNIQUE constraint failed: students.student_id''),
      (run [AddStudent ''S1'' ''Alice''])\<lparr>write_lock := True\<rparr>)
   \<and> student_rows (snd (add_student ''S1'' ''Bob'' (run [AddStudent ''S1'' ''Alice'']))) =
     [\<lparr>s_id = 1, s_student_id = ''S1'', s_name = ''Alice''\<rparr>]"
proof -
  let ?db = "run [AddStudent ''S1'' ''Alice'']"
  have rows: "student_rows ?db = [\<lparr>s_id = 1, s_student_id = ''S1'', s_name = ''Alice''\<rparr>]"
    by code_simp
  have unlocked: "write_lock ?db = False" by code_simp
  from rows have "''S1'' \<in> set (map s_student_id (student_rows ?db))"
    by simp
  note w = add_student_duplicate_rejected[OF this, of "''Bob''"]
  have 1: "add_student ''S1'' ''Bob'' ?db =
     ((False, ''UNIQUE constraint failed: students.student_id''), ?db\<lparr>write_lock := True\<rparr>)"
    using w[THEN conjunct1] by (simp only: unlocked if_False)
  have 2: "student_rows (snd (add_student ''S1'' ''Bob'' ?db)) =
     [\<lparr>s_id = 1, s_student_id = ''S1'', s_name = ''Alice''\<rparr>]"
    using w[THEN conjunct2, THEN conjunct1] rows by (simp add: student_rows_def)
  from 1 2 show ?thesis by (rule conjI)
qed

section \<open>Saving attendance\<close>

lemma insert_row_rows:
  "\<exists>i. insert_row key mk t = \<lparr>rows = rows t @ [mk i], autoinc = i\<rparr>"
  by (simp add: insert_row_def Let_def)

lemma sql_insert_attendance_Some:
  assumes "attendance db = Some t" and "\<not> write_lock db"
  shows "\<exists>r n. sql_insert_attendance sid d st db =
            Inr (db\<lparr>attendance := Some \<lparr>rows = rows t @ [r], autoinc = n\<rparr>\<rparr>)
          \<and> a_student_id r = sid \<and> a_att_date r = d \<and> a_status r = st"
proof -
  obtain i where i: "insert_row a_id (\<lambda>i. \<lparr>a_id = i, a_student_id = sid, a_att_date = d,
        a_status = st\<rparr>) t =
      \<lparr>rows = rows t @ [\<lparr>a_id = i, a_student_id = sid, a_att_date = d, a_status = st\<rparr>],
       autoinc = i\<rparr>"
    using insert_row_rows by blast
  show ?thesis
    by (intro exI[of _ "\<lparr>a_id = i, a_student_id = sid, a_att_date = d, a_status = st\<rparr>"]
          exI[of _ i])
       (simp add: sql_insert_attendance_def assms i)
qed

lemma insert_marks_Some:
  "attendance db = Some t \<Longrightarrow> \<not> write_lock db \<Longrightarrow>
   \<exists>new n. insert_marks d items db =
       Inr (db\<lparr>attendance := Some \<lparr>rows = rows t @ new, autoinc = n\<rparr>\<rparr>)
     \<and> map (\<lambda>a. (a_student_id a, a_status a)) new = items
     \<and> (\<forall>a\<in>set new. a_att_date a = d)"
proof (induction items arbitrary: db t)
  case Nil
  have "db = db\<lparr>attendance := Some \<lparr>rows = rows t @ [], autoinc = autoinc t\<rparr>\<rparr>"
    using Nil by (cases db, cases t) simp
  then have "insert_marks d [] db =
      Inr (db\<lparr>attendance := Some \<lparr>rows = rows t @ [], autoinc = autoinc t\<rparr>\<rparr>)"
    by simp
  then show ?case by (intro exI[of _ "[]"] exI[of _ "autoinc t"]) simp
next
  case (Cons item items)
  obtain sid st where item: "item = (sid, st)" by (cases item)
  from sql_insert_attendance_Some[OF Cons.prems, of sid d st] obtain r n where
    ins: "sql_insert_attendance sid d st db =
      Inr (db\<lparr>attendance := Some \<lparr>rows = rows t @ [r], autoinc = n\<rparr>\<rparr>)"
    and r: "a_student_id r = sid" "a_att_date r = d" "a_status r = st"
    by blast
  let ?t' = "\<lparr>rows = rows t @ [r], autoinc = n\<rparr>"
  let ?db' = "db\<lparr>attendance := Some ?t'\<rparr>"
  have "attendance ?db' = Some ?t'" by simp
  moreover have "\<not> write_lock ?db'" using Cons.prems(2) by simp
  ultimately obtain new m where
    rec: "insert_marks d items ?db' =
      Inr (?db'\<lparr>attendance := Some \<lparr>rows = rows ?t' @ new, autoinc = m\<rparr>\<rparr>)"
    and new: "map (\<lambda>a. (a_student_id a, a_status a)) new = items"
      "\<forall>a\<in>set new. a_att_date a = d"
    using Cons.IH by blast
  have "insert_marks d (item # items) db = insert_marks d items ?db'"
    by (simp add: item ins)
  also have "\<dots> = Inr (db\<lparr>attendance := Some \<lparr>rows = rows t @ (r # new), autoinc = m\<rparr>\<rparr>)"
    by (simp add: rec)
  finally have 1: "insert_marks d (item # items) db =
      Inr (db\<lparr>attendance := Some \<lparr>rows = rows t @ (r # new), autoinc = m\<rparr>\<rparr>)" .
  have 2: "map (\<lambda>a. (a_student_id a, a_status a)) (r # new) = item # items"
    by (simp add: item r new)
  have 3: "\<forall>a\<in>set (r # new). a_att_date a = d"
    by (simp add: r new)
  show ?case
    by (rule exI[of _ "r # new"], rule exI[of _ m]) (intro conjI 1 2 3)
qed

text \<open>With the table there and the lock free, a save returns.\<close>

lemma mark_attendance_Some:
  assumes "attendance db = Some t" and "\<not> write_lock db"
  shows "\<exists>new n. mark_attendance d items db =
      (Inr (), db\<lparr>attendance := Some
         \<lparr>rows = filter (\<lambda>a. a_att_date a \<noteq> d) (rows t) @ new, autoinc = n\<rparr>\<rparr>)
     \<and> map (\<lambda>a. (a_student_id a, a_status a)) new = items
     \<and> (\<forall>a\<in>set new. a_att_date a = d)"
proof -
  let ?t1 = "t\<lparr>rows := filter (\<lambda>a. a_att_date a \<noteq> d) (rows t)\<rparr>"
  let ?db1 = "db\<lparr>attendance := Some ?t1\<rparr>"
  have del: "sql_delete_attendance d db = Inr ?db1"
    using assms by (simp add: sql_delete_attendance_def)
  have "attendance ?db1 = Some ?t1" by simp
  moreover have "\<not> write_lock ?db1" using assms(2) by simp
  ultimately obtain new n where
    ins: "insert_marks d items ?db1 =
      Inr (?db1\<lparr>attendance := Some \<lparr>rows = rows ?t1 @ new, autoinc = n\<rparr>\<rparr>)"
    and new: "map (\<lambda>a. (a_student_id a, a_status a)) new = items"
      "\<forall>a\<in>set new. a_att_date a = d"
    using insert_marks_Some[of ?db1 ?t1 d items] by blast
  have 1: "mark_attendance d items db =
      (Inr (), db\<lparr>attendance := Some
         \<lparr>rows = filter (\<lambda>a. a_att_date a \<noteq> d) (rows t) @ new, autoinc = n\<rparr>\<rparr>)"
    by (simp add: mark_attendance_def del ins)
  show ?thesis
    by (rule exI[of _ new], rule exI[of _ n]) (intro conjI 1 new)
qed

text \<open>Without the table, or with the lock held, a save raises and changes nothing.\<close>

lemma mark_attendance_raises:
  assumes "attendance db = None \<or> write_lock db"
  shows "mark_attendance d items db =
    (Inl (if attendance db = None then no_such_table ''attendance'' else database_locked), db)"
  using assms
  by (auto simp: mark_attendance_def sql_delete_attendance_def leak_def no_such_table_def
      database_locked_def split: option.splits)

lemma mark_attendance_frame:
  "students (snd (mark_attendance d m db)) = students db
   \<and> (attendance (snd (mark_attendance d m db)) = None \<longleftrightarrow> attendance db = None)
   \<and> filter (\<lambda>a. a_att_date a \<noteq> d) (attendance_rows (snd (mark_attendance d m db)))
       = filter (\<lambda>a. a_att_date a \<noteq> d) (attendance_rows db)"
proof (cases "attendance db = None \<or> write_lock db")
  case True
  then show ?thesis by (simp only: mark_attendance_raises[OF True] snd_conv simp_thms)
next
  case False
  then obtain t where t: "attendance db = Some t" and free: "\<not> write_lock db" by auto
  from mark_attendance_Some[OF t free, of d m] obtain new n where
    1: "mark_attendance d m db =
      (Inr (), db\<lparr>attendance := Some
         \<lparr>rows = filter (\<lambda>a. a_att_date a \<noteq> d) (rows t) @ new, autoinc = n\<rparr>\<rparr>)"
    and 2: "\<forall>a\<in>set new. a_att_date a = d"
    by blast
  have "filter (\<lambda>a. a_att_date a \<noteq> d) new = []"
    using 2 by (simp add: filter_empty_conv)
  then show ?thesis
    by (simp add: 1 t attendance_rows_def)
qed

lemma mark_attendance_rows:
  assumes "attendance db = Some t" and "\<not> write_lock db"
  shows "fst (mark_attendance d m db) = Inr ()
    \<and> students (snd (mark_attendance d m db)) = students db
    \<and> attendance (snd (mark_attendance d m db)) \<noteq> None
    \<and> \<not> write_lock (snd (mark_attendance d m db))
    \<and> filter (\<lambda>a. a_att_date a \<noteq> d) (attendance_rows (snd (mark_attendance d m db)))
       = filter (\<lambda>a. a_att_date a \<noteq> d) (rows t)
    \<and> marks_on d (attendance_rows (snd (mark_attendance d m db))) = m"
proof -
  from mark_attendance_Some[OF assms, of d m] obtain new n where
    1: "mark_attendance d m db =
      (Inr (), db\<lparr>attendance := Some
         \<lparr>rows = filter (\<lambda>a. a_att_date a \<noteq> d) (rows t) @ new, autoinc = n\<rparr>\<rparr>)"
    and 2: "map (\<lambda>a. (a_student_id a, a_status a)) new = m"
      "\<forall>a\<in>set new. a_att_date a = d"
    by blast
  have 3: "filter (\<lambda>a. a_att_date a \<noteq> d) new = []"
    using 2 by (simp add: filter_empty_conv)
  have 4: "filter (\<lambda>a. a_att_date a = d) new = new"
    using 2 by simp
  show ?thesis
    by (simp add: 1 2 3 4 assms(2) attendance_rows_def marks_on_def)
qed

text \<open>
  C10.  \<^verbatim>\<open>mark_attendance\<close> leaves the table of students as it was, creates or drops
  no table, and leaves every attendance row of another date in its place, whether it
  returns or raises; \<^verbatim>\<open>get_attendance_for_date\<close> and \<^verbatim>\<open>get_students\<close> leave the whole
  database as it was.
\<close>

theorem attendance_frame:
  "students (snd (mark_attendance d m db)) = students db
   \<and> (attendance (snd (mark_attendance d m db)) = None \<longleftrightarrow> attendance db = None)
   \<and> filter (\<lambda>a. a_att_date a \<noteq> d) (attendance_rows (snd (mark_attendance d m db)))
       = filter (\<lambda>a. a_att_date a \<noteq> d) (attendance_rows db)
   \<and> snd (get_attendance_for_date d' db) = db
   \<and> snd (get_students db) = db"
  using mark_attendance_frame[of d m db]
  by (simp add: get_attendance_for_date_def get_students_def)

section \<open>The attendance view\<close>

lemma insort_key_map:
  "insort_key f (g x) (map g xs) = map g (insort_key (\<lambda>y. f (g y)) x xs)"
  by (induction xs) simp_all

lemma sort_key_map:
  "sort_key f (map g xs) = map g (sort_key (\<lambda>y. f (g y)) xs)"
  by (induction xs) (simp_all add: insort_key_map)

lemma map_sort_key: "map f (sort_key f xs) = sort (map f xs)"
  using sort_key_map[of "\<lambda>x. x" f xs] by simp

lemma left_join_single:
  assumes "\<forall>s\<in>set ss.
    length (filter (\<lambda>a. s_student_id s = a_student_id a \<and> a_att_date a = d) as) \<le> 1"
  shows "left_join d ss as =
    map (\<lambda>s. (s, find (\<lambda>a. s_student_id s = a_student_id a \<and> a_att_date a = d) as)) ss"
proof -
  have one: "(case filter P as of [] \<Rightarrow> [(s, None)] | ms \<Rightarrow> map (\<lambda>a. (s, Some a)) ms)
      = [(s, find P as)]"
    if "length (filter P as) \<le> 1" for P and s :: student_row
    using that by (induction as) (auto split: list.splits if_splits)
  show ?thesis
    unfolding left_join_def using assms
    by (induction ss) (simp_all add: one)
qed

lemma select_attendance_single:
  assumes "students db = Some st" "attendance db = Some at"
    and "\<forall>s\<in>set (rows st).
      length (filter (\<lambda>a. s_student_id s = a_student_id a \<and> a_att_date a = d) (rows at)) \<le> 1"
  shows "sql_select_attendance d db = Inr (view_of d (rows st) (rows at))"
  by (simp add: sql_select_attendance_def assms(1,2) left_join_single[OF assms(3)]
      sort_key_map view_of_def view_row_def stored_mark_def o_def option.case_eq_if
      option.map_sel)

lemma distinct_filter_le_one:
  "distinct (map mark_key as) \<Longrightarrow>
   length (filter (\<lambda>a. sid = a_student_id a \<and> a_att_date a = d) as) \<le> 1"
proof (induction as)
  case Nil
  then show ?case by simp
next
  case (Cons a as)
  show ?case
  proof (cases "sid = a_student_id a \<and> a_att_date a = d")
    case True
    have "filter (\<lambda>a. sid = a_student_id a \<and> a_att_date a = d) as = []"
    proof (rule ccontr)
      assume "filter (\<lambda>a. sid = a_student_id a \<and> a_att_date a = d) as \<noteq> []"
      then obtain b where b: "b \<in> set as" "sid = a_student_id b" "a_att_date b = d"
        by (auto simp: filter_empty_conv)
      with True have "mark_key a = mark_key b"
        by (simp add: mark_key_def)
      with b(1) have "mark_key a \<in> mark_key ` set as"
        by (simp add: image_iff) blast
      with Cons.prems show False by simp
    qed
    with True show ?thesis by simp
  next
    case False
    with Cons show ?thesis by auto
  qed
qed

lemma stored_mark_map_of:
  "stored_mark sid d as = map_of (marks_on d as) sid"
  by (induction as) (auto simp: stored_mark_def marks_on_def)

lemma marks_on_le_one:
  "distinct (map fst (marks_on d as)) \<Longrightarrow>
   length (filter (\<lambda>a. sid = a_student_id a \<and> a_att_date a = d) as) \<le> 1"
proof (induction as)
  case Nil
  then show ?case by simp
next
  case (Cons a as)
  have mem: "a_student_id b \<in> fst ` set (marks_on d as)"
    if "b \<in> set as" "a_att_date b = d" for b
    using that by (force simp: marks_on_def)
  show ?case
  proof (cases "sid = a_student_id a \<and> a_att_date a = d")
    case True
    have "filter (\<lambda>a. sid = a_student_id a \<and> a_att_date a = d) as = []"
    proof (rule ccontr)
      assume "filter (\<lambda>a. sid = a_student_id a \<and> a_att_date a = d) as \<noteq> []"
      then obtain b where "b \<in> set as" "sid = a_student_id b" "a_att_date b = d"
        by (auto simp: filter_empty_conv)
      with mem[of b] have "sid \<in> set (map fst (marks_on d as))" by simp
      moreover have "marks_on d (a # as) = (sid, a_status a) # marks_on d as"
        using True by (simp add: marks_on_def)
      ultimately show False using Cons.prems by simp
    qed
    with True show ?thesis by simp
  next
    case False
    with Cons show ?thesis by (auto simp: marks_on_def split: if_splits)
  qed
qed

lemma stored_mark_no_rows:
  "\<forall>a\<in>set as. a_att_date a \<noteq> d \<Longrightarrow> stored_mark sid d as = None"
  by (simp add: stored_mark_def find_None_iff)

text \<open>
  What an empty save does while no connection left open holds the lock: on a database
  with both tables it returns and stores the attendance table without its rows of date
  \<open>d\<close>, every other row in its place and no row added, and the view of \<open>d\<close> then
  reports every student of the roster, in order of name, as \<^verbatim>\<open>Absent\<close>.
\<close>

lemma empty_mapping_clears_unlocked:
  assumes "students db = Some st" and "attendance db = Some at" and "\<not> write_lock db"
  shows "mark_attendance d [] db =
      (Inr (), db\<lparr>attendance := Some (at\<lparr>rows := filter (\<lambda>a. a_att_date a \<noteq> d) (rows at)\<rparr>)\<rparr>)
    \<and> fst (get_attendance_for_date d (snd (mark_attendance d [] db))) =
      Inr (map (\<lambda>s. (s_student_id s, s_name s, ''Absent'')) (sort_key s_name (rows st)))"
proof -
  let ?at' = "at\<lparr>rows := filter (\<lambda>a. a_att_date a \<noteq> d) (rows at)\<rparr>"
  let ?db' = "db\<lparr>attendance := Some ?at'\<rparr>"
  have 1: "mark_attendance d [] db = (Inr (), ?db')"
    by (simp add: mark_attendance_def sql_delete_attendance_def assms(2,3))
  have none: "\<forall>a\<in>set (rows ?at'). a_att_date a \<noteq> d" by simp
  then have "\<forall>s\<in>set (rows st).
      length (filter (\<lambda>a. s_student_id s = a_student_id a \<and> a_att_date a = d) (rows ?at')) \<le> 1"
    by (simp add: filter_empty_conv[THEN iffD2])
  then have "sql_select_attendance d ?db' = Inr (view_of d (rows st) (rows ?at'))"
    using assms(1) by (intro select_attendance_single) simp_all
  also have "view_of d (rows st) (rows ?at') =
      map (\<lambda>s. (s_student_id s, s_name s, ''Absent'')) (sort_key s_name (rows st))"
    unfolding view_of_def by (simp only: stored_mark_no_rows[OF none] option.case)
  finally show ?thesis
    by (simp add: 1 get_attendance_for_date_def)
qed

text \<open>
  C9 fails in the program.  After \<^verbatim>\<open>add_student\<close> rejected a student, its connection
  is still open and holds the write lock (the path that adds a student closes the
  connection, the path that catches the exception does not).  On that store
  \<^verbatim>\<open>mark_attendance(d, {})\<close> raises \<^verbatim>\<open>database is locked\<close> and deletes nothing: the mark
  of date \<open>d\<close> is still stored, and the view of \<open>d\<close> still reports the student as
  \<^verbatim>\<open>Present\<close>.
\<close>

theorem empty_mapping_after_rejected_add:
  "mark_attendance ''2024-01-01'' [] rejected_example =
     (Inl (OperationalError ''database is locked''), rejected_example)
   \<and> attendance_rows (snd (mark_attendance ''2024-01-01'' [] rejected_example)) =
     [\<lparr>a_id = 1, a_student_id = ''S1'', a_att_date = ''2024-01-01'', a_status = ''Present''\<rparr>]
   \<and> fst (get_attendance_for_date ''2024-01-01''
        (snd (mark_attendance ''2024-01-01'' [] rejected_example))) =
     Inr [(''S1'', ''Amy'', ''Present'')]"
  by code_simp

text \<open>
  What two saves for one date do while no connection left open holds the lock: on a
  database with both tables, saving the \<^verbatim>\<open>dict\<close> \<open>m1\<close> and then the \<^verbatim>\<open>dict\<close> \<open>m2\<close>
  for the date \<open>d\<close> raises nothing; the marks stored for \<open>d\<close> are then exactly the
  items of \<open>m2\<close>, one row for each, and the view of \<open>d\<close> gives every student of the
  roster the status \<open>m2\<close> has for the student's id, and \<^verbatim>\<open>Absent\<close> when \<open>m2\<close> has
  none, whatever \<open>m1\<close> held.
\<close>

lemma replace_on_save_unlocked:
  assumes "students db = Some st" and "attendance db = Some at" and "\<not> write_lock db"
    and "is_dict m1" and "is_dict m2"
  shows "fst (mark_attendance d m1 db) = Inr ()
    \<and> fst (mark_attendance d m2 (snd (mark_attendance d m1 db))) = Inr ()
    \<and> marks_on d (attendance_rows (snd (mark_attendance d m2 (snd (mark_attendance d m1 db)))))
        = m2
    \<and> fst (get_attendance_for_date d (snd (mark_attendance d m2 (snd (mark_attendance d m1 db)))))
        = Inr (map (\<lambda>s. (s_student_id s, s_name s,
                          (case map_of m2 (s_student_id s) of
                             None \<Rightarrow> ''Absent'' | Some status \<Rightarrow> status)))
                (sort_key s_name (rows st)))"
proof -
  let ?db1 = "snd (mark_attendance d m1 db)"
  let ?db2 = "snd (mark_attendance d m2 ?db1)"
  note r1 = mark_attendance_rows[OF assms(2,3), of d m1]
  from r1 obtain at1 where at1: "attendance ?db1 = Some at1" by auto
  from r1 have free1: "\<not> write_lock ?db1" by simp
  note r2 = mark_attendance_rows[OF at1 free1, of d m2]
  from r2 obtain at2 where at2: "attendance ?db2 = Some at2" by auto
  have st2: "students ?db2 = Some st" using r1 r2 assms(1) by simp
  have m2: "marks_on d (rows at2) = m2"
    using r2 at2 by (simp add: attendance_rows_def)
  then have "distinct (map fst (marks_on d (rows at2)))"
    using assms(5) by (simp add: is_dict_def)
  then have "\<forall>s\<in>set (rows st).
      length (filter (\<lambda>a. s_student_id s = a_student_id a \<and> a_att_date a = d) (rows at2)) \<le> 1"
    by (intro ballI marks_on_le_one)
  from select_attendance_single[OF st2 at2 this]
  have "sql_select_attendance d ?db2 = Inr (view_of d (rows st) (rows at2))" .
  then have "fst (get_attendance_for_date d ?db2) =
        Inr (map (\<lambda>s. (s_student_id s, s_name s,
                        (case map_of m2 (s_student_id s) of
                           None \<Rightarrow> ''Absent'' | Some status \<Rightarrow> status)))
              (sort_key s_name (rows st)))"
    by (simp add: get_attendance_for_date_def view_of_def stored_mark_map_of m2)
  moreover have "marks_on d (attendance_rows ?db2) = m2"
    using m2 at2 by (simp add: attendance_rows_def)
  ultimately show ?thesis using r1 r2 by simp
qed

text \<open>
  C1 fails in the program, by the same connection that \<^verbatim>\<open>add_student\<close> leaves open
  when it rejects a student.  On that store both saves raise \<^verbatim>\<open>database is locked\<close>
  and store nothing: after saving \<^verbatim>\<open>{S1: Absent}\<close> and then \<^verbatim>\<open>{S1: Present}\<close> for a
  new date, no mark is stored for the date, and the view of the date reports the
  student, marked \<^verbatim>\<open>Present\<close> in the second save, as \<^verbatim>\<open>Absent\<close>.
\<close>

theorem replace_on_save_after_rejected_add:
  "mark_attendance ''2024-01-02'' [(''S1'', ''Absent'')] rejected_example =
     (Inl (OperationalError ''database is locked''), rejected_example)
   \<and> mark_attendance ''2024-01-02'' [(''S1'', ''Present'')]
       (snd (mark_attendance ''2024-01-02'' [(''S1'', ''Absent'')] rejected_example)) =
     (Inl (OperationalError ''database is locked''), rejected_example)
   \<and> marks_on ''2024-01-02'' (attendance_rows
       (snd (mark_attendance ''2024-01-02'' [(''S1'', ''Present'')]
         (snd (mark_attendance ''2024-01-02'' [(''S1'', ''Absent'')] rejected_example))))) = []
   \<and> fst (get_attendance_for_date ''2024-01-02''
       (snd (mark_attendance ''2024-01-02'' [(''S1'', ''Present'')]
         (snd (mark_attendance ''2024-01-02'' [(''S1'', ''Absent'')] rejected_example))))) =
     Inr [(''S1'', ''Amy'', ''Absent'')]"
  by code_simp

section \<open>At most one mark for a student and a date\<close>

lemma mark_attendance_at_most_one:
  assumes "is_dict m" and "at_most_one_mark db"
  shows "at_most_one_mark (snd (mark_attendance d m db))"
proof (cases "attendance db = None \<or> write_lock db")
  case True
  show ?thesis using assms(2) by (simp only: mark_attendance_raises[OF True] snd_conv)
next
  case False
  then obtain t where Some: "attendance db = Some t" and free: "\<not> write_lock db" by auto
  from mark_attendance_Some[OF Some free, of d m] obtain new n where
    1: "mark_attendance d m db =
      (Inr (), db\<lparr>attendance := Some
         \<lparr>rows = filter (\<lambda>a. a_att_date a \<noteq> d) (rows t) @ new, autoinc = n\<rparr>\<rparr>)"
    and 2: "map (\<lambda>a. (a_student_id a, a_status a)) new = m"
      "\<forall>a\<in>set new. a_att_date a = d"
    by blast
  have keys: "map mark_key new = map (\<lambda>sid. (sid, d)) (map fst m)"
    unfolding 2(1)[symmetric] using 2(2) by (simp add: mark_key_def)
  have "distinct (map mark_key new)"
    unfolding keys using assms(1)
    by (simp add: is_dict_def distinct_map inj_on_def del: map_map)
  moreover have "distinct (map mark_key (filter (\<lambda>a. a_att_date a \<noteq> d) (rows t)))"
    using assms(2) Some
    by (simp add: at_most_one_mark_def attendance_rows_def distinct_map_filter)
  moreover have "mark_key ` set (filter (\<lambda>a. a_att_date a \<noteq> d) (rows t))
      \<inter> mark_key ` set new = {}"
    using 2(2) by (auto simp: mark_key_def)
  ultimately show ?thesis
    by (simp add: 1 at_most_one_mark_def attendance_rows_def)
qed

lemma mark_all_at_most_one:
  "at_most_one_mark db \<Longrightarrow> \<forall>c\<in>set calls. is_dict (snd c) \<Longrightarrow>
   at_most_one_mark (mark_all calls db)"
  unfolding mark_all_def
  by (induction calls arbitrary: db) (simp_all add: mark_attendance_at_most_one)

text \<open>
  C4.  From a database with no attendance row, after any sequence of calls of
  \<^verbatim>\<open>mark_attendance\<close>, each with a date and a \<^verbatim>\<open>dict\<close>, no two attendance rows have
  the same student id and date.
\<close>

theorem at_most_one_mark_invariant:
  assumes "attendance_rows db = []" and "\<forall>c\<in>set calls. is_dict (snd c)"
  shows "at_most_one_mark (mark_all calls db)"
proof -
  have "at_most_one_mark db"
    using assms(1) by (simp add: at_most_one_mark_def)
  then show ?thesis
    using assms(2) by (rule mark_all_at_most_one)
qed

theorem at_most_one_mark_invariant_witness:
  "attendance_rows roster_example = []
   \<and> at_most_one_mark (mark_all
       [(''2024-01-01'', [(''S1'', ''Present''), (''S2'', ''Absent'')]),
        (''2024-01-02'', [(''S1'', ''Absent'')]),
        (''2024-01-01'', [(''S2'', ''Present'')])] roster_example)
   \<and> attendance_rows (mark_all
       [(''2024-01-01'', [(''S1'', ''Present''), (''S2'', ''Absent'')]),
        (''2024-01-02'', [(''S1'', ''Absent'')]),
        (''2024-01-01'', [(''S2'', ''Present'')])] roster_example) =
     [\<lparr>a_id = 3, a_student_id = ''S1'', a_att_date = ''2024-01-02'', a_status = ''Absent''\<rparr>,
      \<lparr>a_id = 4, a_student_id = ''S2'', a_att_date = ''2024-01-01'', a_status = ''Present''\<rparr>]"
proof -
  have e: "attendance_rows roster_example = []" by code_simp
  have d: "\<forall>c\<in>set [(''2024-01-01'', [(''S1'', ''Present''), (''S2'', ''Absent'')]),
        (''2024-01-02'', [(''S1'', ''Absent'')]),
        (''2024-01-01'', [(''S2'', ''Present'')])]. is_dict (snd c)"
    by (simp add: is_dict_def)
  have r: "attendance_rows (mark_all
       [(''2024-01-01'', [(''S1'', ''Present''), (''S2'', ''Absent'')]),
        (''2024-01-02'', [(''S1'', ''Absent'')]),
        (''2024-01-01'', [(''S2'', ''Present'')])] roster_example) =
     [\<lparr>a_id = 3, a_student_id = ''S1'', a_att_date = ''2024-01-02'', a_status = ''Absent''\<rparr>,
      \<lparr>a_id = 4, a_student_id = ''S2'', a_att_date = ''2024-01-01'', a_status = ''Present''\<rparr>]"
    by code_simp
  from at_most_one_mark_invariant[OF e d] e r show ?thesis by (intro conjI)
qed

section \<open>The view defaults to Absent\<close>

lemma init_db_empty_store_ok: "store_ok (snd (init_db empty_db))"
  by (simp add: store_ok_def init_db_def create_table_def at_most_one_mark_def
      attendance_rows_def empty_table_def empty_db_def)

lemma init_db_store_ok: "store_ok db \<Longrightarrow> store_ok (snd (init_db db))"
  by (auto simp: store_ok_def init_db_def create_table_def at_most_one_mark_def
      attendance_rows_def)

lemma add_student_store_ok: "store_ok db \<Longrightarrow> store_ok (snd (add_student sid name db))"
  by (auto simp: store_ok_def add_student_def sql_insert_student_def at_most_one_mark_def
      attendance_rows_def leak_def database_locked_def split: option.splits)

lemma collect_store_ok: "store_ok db \<Longrightarrow> store_ok (collect db)"
  by (simp add: store_ok_def collect_def at_most_one_mark_def attendance_rows_def)

lemma mark_attendance_store_ok:
  "is_dict m \<Longrightarrow> store_ok db \<Longrightarrow> store_ok (snd (mark_attendance d m db))"
  using mark_attendance_frame[of d m db] mark_attendance_at_most_one[of m db d]
  by (simp add: store_ok_def)

lemma exec_store_ok: "well_formed c \<Longrightarrow> store_ok db \<Longrightarrow> store_ok (exec c db)"
  by (cases c)
     (simp_all add: init_db_store_ok add_student_store_ok mark_attendance_store_ok
        collect_store_ok)

lemma fold_exec_store_ok:
  "list_all well_formed cmds \<Longrightarrow> store_ok db \<Longrightarrow> store_ok (fold exec cmds db)"
  by (induction cmds arbitrary: db) (simp_all add: exec_store_ok)

lemma run_store_ok: "list_all well_formed cmds \<Longrightarrow> store_ok (run cmds)"
  unfolding run_def
  by (rule fold_exec_store_ok, assumption, rule init_db_empty_store_ok)

lemma store_ok_view:
  assumes "store_ok db"
  shows "sql_select_attendance d db = Inr (view_of d (student_rows db) (attendance_rows db))"
proof -
  from assms obtain st at where t: "students db = Some st" "attendance db = Some at"
    by (auto simp: store_ok_def)
  have "distinct (map mark_key (rows at))"
    using assms t by (simp add: store_ok_def at_most_one_mark_def attendance_rows_def)
  then have "\<forall>s\<in>set (rows st).
      length (filter (\<lambda>a. s_student_id s = a_student_id a \<and> a_att_date a = d) (rows at)) \<le> 1"
    by (intro ballI distinct_filter_le_one)
  from select_attendance_single[OF t this] show ?thesis
    by (simp add: student_rows_def attendance_rows_def t)
qed

text \<open>
  C2.  In every state the program reaches (\<^verbatim>\<open>init_db\<close> at the start, then any calls of
  \<^verbatim>\<open>init_db\<close>, \<^verbatim>\<open>add_student\<close> and \<^verbatim>\<open>mark_attendance\<close> with a \<^verbatim>\<open>dict\<close>, returning
  or not, and any runs of the garbage collector) and for every date,
  \<^verbatim>\<open>get_attendance_for_date\<close> returns the view of the specification: one row for each
  student of the roster, none left out, with the stored mark of the student for the
  date and \<^verbatim>\<open>Absent\<close> when no mark is stored.
\<close>

theorem default_to_absent:
  assumes "list_all well_formed cmds"
  shows "get_attendance_for_date d (run cmds) =
     (Inr (view_of d (student_rows (run cmds)) (attendance_rows (run cmds))), run cmds)
   \<and> length (view_of d (student_rows (run cmds)) (attendance_rows (run cmds)))
       = length (student_rows (run cmds))"
  using store_ok_view[OF run_store_ok[OF assms]]
  by (simp add: get_attendance_for_date_def view_of_def)

theorem default_to_absent_witness:
  "fst (get_attendance_for_date ''2024-01-01''
     (run [AddStudent ''S1'' ''Amy'', AddStudent ''S2'' ''Zoe''])) =
     Inr [(''S1'', ''Amy'', ''Absent''), (''S2'', ''Zoe'', ''Absent'')]
   \<and> fst (get_attendance_for_date ''2024-01-01''
     (run [AddStudent ''S1'' ''Amy'', AddStudent ''S2'' ''Zoe'',
           AddStudent ''S1'' ''Bob'', MarkAttendance ''2024-01-01'' [(''S1'', ''Present'')],
           Collect, MarkAttendance ''2024-01-01'' [(''S2'', ''Present'')],
           MarkAttendance ''2024-01-02'' [(''S1'', ''Present'')]])) =
     Inr [(''S1'', ''Amy'', ''Absent''), (''S2'', ''Zoe'', ''Present'')]"
proof -
  let ?c1 = "[AddStudent ''S1'' ''Amy'', AddStudent ''S2'' ''Zoe'']"
  let ?c2 = "[AddStudent ''S1'' ''Amy'', AddStudent ''S2'' ''Zoe'',
           AddStudent ''S1'' ''Bob'', MarkAttendance ''2024-01-01'' [(''S1'', ''Present'')],
           Collect, MarkAttendance ''2024-01-01'' [(''S2'', ''Present'')],
           MarkAttendance ''2024-01-02'' [(''S1'', ''Present'')]]"
  have w1: "list_all well_formed ?c1" by simp
  have w2: "list_all well_formed ?c2" by (simp add: is_dict_def)
  have v1: "view_of ''2024-01-01'' (student_rows (run ?c1)) (attendance_rows (run ?c1)) =
      [(''S1'', ''Amy'', ''Absent''), (''S2'', ''Zoe'', ''Absent'')]"
    by code_simp
  have v2: "view_of ''2024-01-01'' (student_rows (run ?c2)) (attendance_rows (run ?c2)) =
      [(''S1'', ''Amy'', ''Absent''), (''S2'', ''Zoe'', ''Present'')]"
    by code_simp
  have 1: "fst (get_attendance_for_date ''2024-01-01'' (run ?c1)) =
      Inr [(''S1'', ''Amy'', ''Absent''), (''S2'', ''Zoe'', ''Absent'')]"
    by (simp only: default_to_absent[OF w1, THEN conjunct1] v1 fst_conv)
  have 2: "fst (get_attendance_for_date ''2024-01-01'' (run ?c2)) =
      Inr [(''S1'', ''Amy'', ''Absent''), (''S2'', ''Zoe'', ''Present'')]"
    by (simp only: default_to_absent[OF w2, THEN conjunct1] v2 fst_conv)
  from 1 2 show ?thesis by (rule conjI)
qed

section \<open>Ordering by name\<close>

text \<open>
  C6.  On a database with both tables, \<^verbatim>\<open>get_students\<close> returns the pairs of student
  id and name of all rows of the roster, each as often as the roster has it, in
  ascending order of name; the names come in the one sorted order of the names of the
  roster, whatever the order of the rows in the table.  \<^verbatim>\<open>get_attendance_for_date\<close>
  returns its rows in ascending order of name as well.
\<close>

theorem roster_ordering:
  assumes "students db = Some st" and "attendance db = Some at"
  shows "\<exists>rs vs. fst (get_students db) = Inr rs
      \<and> mset rs = mset (map (\<lambda>s. (s_student_id s, s_name s)) (rows st))
      \<and> sorted (map snd rs)
      \<and> map snd rs = sort (map s_name (rows st))
      \<and> fst (get_attendance_for_date d db) = Inr vs
      \<and> sorted (map (\<lambda>v. fst (snd v)) vs)"
proof -
  let ?rs = "map (\<lambda>s. (s_student_id s, s_name s)) (sort_key s_name (rows st))"
  let ?vs = "map view_row (sort_key (\<lambda>p. s_name (fst p)) (left_join d (rows st) (rows at)))"
  have 1: "fst (get_students db) = Inr ?rs"
    by (simp add: get_students_def sql_select_students_def assms)
  have 2: "mset ?rs = mset (map (\<lambda>s. (s_student_id s, s_name s)) (rows st))"
    by simp
  have names: "map snd ?rs = map s_name (sort_key s_name (rows st))"
    by (simp add: o_def)
  have 3: "sorted (map snd ?rs)" unfolding names by (rule sorted_sort_key)
  have 4: "map snd ?rs = sort (map s_name (rows st))"
    unfolding names by (rule map_sort_key)
  have 5: "fst (get_attendance_for_date d db) = Inr ?vs"
    by (simp add: get_attendance_for_date_def sql_select_attendance_def assms)
  have "map (\<lambda>v. fst (snd v)) ?vs =
      map (\<lambda>p. s_name (fst p)) (sort_key (\<lambda>p. s_name (fst p)) (left_join d (rows st) (rows at)))"
    by (simp add: o_def view_row_def)
  then have 6: "sorted (map (\<lambda>v. fst (snd v)) ?vs)"
    by (simp only: sorted_sort_key)
  show ?thesis
    by (rule exI[of _ ?rs], rule exI[of _ ?vs]) (intro conjI 1 2 3 4 5 6)
qed

theorem roster_ordering_witness:
  "fst (get_students roster_example) = Inr [(''S1'', ''Amy''), (''S2'', ''Zoe'')]
   \<and> (\<exists>rs vs. fst (get_students roster_example) = Inr rs
      \<and> mset rs = mset [(''S2'', ''Zoe''), (''S1'', ''Amy'')]
      \<and> sorted (map snd rs)
      \<and> map snd rs = sort [''Zoe'', ''Amy'']
      \<and> fst (get_attendance_for_date ''2024-01-01'' roster_example) = Inr vs
      \<and> sorted (map (\<lambda>v. fst (snd v)) vs))"
proof -
  let ?st = "\<lparr>rows = [\<lparr>s_id = 1, s_student_id = ''S2'', s_name = ''Zoe''\<rparr>,
                       \<lparr>s_id = 2, s_student_id = ''S1'', s_name = ''Amy''\<rparr>], autoinc = 2\<rparr>"
  have s: "students roster_example = Some ?st" by code_simp
  have a: "attendance roster_example = Some \<lparr>rows = [], autoinc = 0\<rparr>" by code_simp
  have g: "fst (get_students roster_example) = Inr [(''S1'', ''Amy''), (''S2'', ''Zoe'')]"
    by code_simp
  from roster_ordering[OF s a, of "''2024-01-01''"] g show ?thesis
    by simp
qed

section \<open>Rendering the view\<close>

lemma str_join_terminated:
  "xs \<noteq> [] \<Longrightarrow> str_join sep xs @ sep = concat (map (\<lambda>x. x @ sep) xs)"
  by (induction sep xs rule: str_join.induct) simp_all

text \<open>
  C7, as the code has it.  When \<^verbatim>\<open>get_attendance_for_date\<close> returns for the stripped
  text of the date entry, \<^verbatim>\<open>show_attendance_view\<close> returns, leaves the entry and the
  database as they were, and the text widget then holds: for no rows, the text
  \<^verbatim>\<open>No students found.\<close> followed by one line feed; otherwise one line
  \<^verbatim>\<open>student_id | name -> status\<close> per row, in the order of the rows, with a line feed
  between two lines and none after the last (the text with one line feed added is the
  lines, each ended by a line feed).
\<close>

theorem show_attendance_view_renders:
  assumes "fst (get_attendance_for_date (py_strip (view_date ui)) db) = Inr rs"
  shows "fst (show_attendance_view (ui, db)) = Inr ()
    \<and> snd (snd (show_attendance_view (ui, db))) = db
    \<and> view_date (fst (snd (show_attendance_view (ui, db)))) = view_date ui
    \<and> (if rs = []
       then txt_view (fst (snd (show_attendance_view (ui, db)))) = ''No students found.'' @ [LF]
       else txt_view (fst (snd (show_attendance_view (ui, db)))) @ [LF] =
            concat (map (\<lambda>r. fst r @ '' | '' @ fst (snd r) @ '' -> '' @ snd (snd r) @ [LF]) rs))"
proof -
  have q: "get_attendance_for_date (py_strip (view_date ui)) db = (Inr rs, db)"
    using assms by (simp add: get_attendance_for_date_def)
  show ?thesis
  proof (cases "rs = []")
    case True
    then show ?thesis by (simp add: show_attendance_view_def q)
  next
    case False
    then have "map view_line rs \<noteq> []" by simp
    from str_join_terminated[OF this, of "[LF]"]
    have "str_join [LF] (map view_line rs) @ [LF] =
        concat (map (\<lambda>r. fst r @ '' | '' @ fst (snd r) @ '' -> '' @ snd (snd r) @ [LF]) rs)"
      by (simp add: o_def view_line_def)
    with False show ?thesis by (simp add: show_attendance_view_def q)
  qed
qed

theorem show_attendance_view_renders_witness:
  "txt_view (fst (snd (show_attendance_view
      (\<lparr>view_date = '' 2024-01-01 '', txt_view = ''old''\<rparr>,
       run [AddStudent ''S2'' ''Zoe'', AddStudent ''S1'' ''Amy'',
            MarkAttendance ''2024-01-01'' [(''S1'', ''Present'')]])))) @ [LF] =
     ''S1 | Amy -> Present'' @ [LF] @ ''S2 | Zoe -> Absent'' @ [LF]
   \<and> txt_view (fst (snd (show_attendance_view
      (\<lparr>view_date = ''2024-01-01'', txt_view = ''old''\<rparr>, run [])))) =
     ''No students found.'' @ [LF]"
proof -
  let ?db = "run [AddStudent ''S2'' ''Zoe'', AddStudent ''S1'' ''Amy'',
            MarkAttendance ''2024-01-01'' [(''S1'', ''Present'')]]"
  let ?ui = "\<lparr>view_date = '' 2024-01-01 '', txt_view = ''old''\<rparr>"
  let ?empty_ui = "\<lparr>view_date = ''2024-01-01'', txt_view = ''old''\<rparr>"
  have g: "fst (get_attendance_for_date (py_strip (view_date ?ui)) ?db) =
      Inr [(''S1'', ''Amy'', ''Present''), (''S2'', ''Zoe'', ''Absent'')]"
    by code_simp
  have g0: "fst (get_attendance_for_date (py_strip (view_date ?empty_ui)) (run [])) = Inr []"
    by code_simp
  have 1: "txt_view (fst (snd (show_attendance_view (?ui, ?db)))) @ [LF] =
     ''S1 | Amy -> Present'' @ [LF] @ ''S2 | Zoe -> Absent'' @ [LF]"
    using show_attendance_view_renders[OF g] by simp
  have 2: "txt_view (fst (snd (show_attendance_view (?empty_ui, run [])))) =
     ''No students found.'' @ [LF]"
    using show_attendance_view_renders[OF g0] by simp
  from 1 2 show ?thesis by (rule conjI)
qed

text \<open>
  C7 as stated fails for an empty view: on a started program with no student the
  widget holds \<^verbatim>\<open>No students found.\<close> and a line feed, not that text alone.
\<close>

theorem show_attendance_view_empty_counterexample:
  "fst (get_attendance_for_date ''2024-01-01'' (run [])) = Inr []
   \<and> txt_view (fst (snd (show_attendance_view
        (\<lparr>view_date = ''2024-01-01'', txt_view = ''''\<rparr>, run [])))) \<noteq> ''No students found.''"
  by code_simp

section \<open>Export\<close>

lemma csv_chars_distinct:
  "COMMA \<noteq> DQUOTE" "COMMA \<noteq> CR" "COMMA \<noteq> LF" "DQUOTE \<noteq> CR" "DQUOTE \<noteq> LF" "CR \<noteq> LF"
  "DQUOTE \<noteq> COMMA" "CR \<noteq> COMMA" "LF \<noteq> COMMA" "CR \<noteq> DQUOTE" "LF \<noteq> DQUOTE" "LF \<noteq> CR"
  by (simp_all add: COMMA_def DQUOTE_def CR_def LF_def)

lemma read_unquoted:
  "\<not> list_ex csv_special f \<Longrightarrow>
   foldl csv_step (InField, cur, row, out) f = (InField, cur @ f, row, out)"
  by (induction f arbitrary: cur) (simp_all add: csv_special_def)

lemma read_escaped:
  "foldl csv_step (InQuotedField, cur, row, out) (csv_escape f) =
   (InQuotedField, cur @ f, row, out)"
  by (induction f arbitrary: cur) (simp_all add: csv_escape_def)

text \<open>The reader after a written field: a comma or a carriage return ends the field.\<close>

lemma read_field:
  "csv_step (foldl csv_step (StartField, [], row, out) (csv_field f)) COMMA =
     (StartField, [], row @ [f], out)
   \<and> csv_step (foldl csv_step (StartField, [], row, out) (csv_field f)) CR =
     (AfterCR, [], [], out @ [row @ [f]])"
proof (cases "list_ex csv_special f")
  case True
  then have "foldl csv_step (StartField, [], row, out) (csv_field f) =
      (QuoteInQuotedField, f, row, out)"
    using read_escaped[of "[]" row out f]
    by (simp add: csv_field_def start_field_def)
  then show ?thesis by (simp add: csv_chars_distinct)
next
  case False
  show ?thesis
  proof (cases f)
    case Nil
    then show ?thesis by (simp add: csv_field_def start_field_def csv_chars_distinct)
  next
    case (Cons c cs)
    with False have c: "\<not> csv_special c" and cs: "\<not> list_ex csv_special cs" by simp_all
    from c have "csv_step (StartField, [], row, out) c = (InField, [c], row, out)"
      by (simp add: start_field_def csv_special_def)
    then have "foldl csv_step (StartField, [], row, out) (csv_field f) =
        (InField, f, row, out)"
      using False Cons read_unquoted[OF cs, of "[c]" row out]
      by (simp add: csv_field_def)
    then show ?thesis by (simp add: csv_chars_distinct)
  qed
qed

lemma read_fields:
  "fs \<noteq> [] \<Longrightarrow>
   foldl csv_step (StartField, [], row, out) (str_join [COMMA] (map csv_field fs) @ [CR, LF]) =
   (StartRecord, [], [], out @ [row @ fs])"
proof (induction fs arbitrary: row rule: list_nonempty_induct)
  case (single f)
  show ?case by (simp add: read_field)
next
  case (cons f fs)
  then obtain g gs where fs: "fs = g # gs" by (cases fs) auto
  have "foldl csv_step (StartField, [], row, out)
      (str_join [COMMA] (map csv_field (f # fs)) @ [CR, LF]) =
    foldl csv_step (StartField, [], row @ [f], out)
      (str_join [COMMA] (map csv_field fs) @ [CR, LF])"
    by (simp add: fs read_field)
  also have "\<dots> = (StartRecord, [], [], out @ [(row @ [f]) @ fs])"
    by (rule cons.IH)
  finally show ?case by simp
qed

lemma csv_field_empty: "csv_field f = [] \<longleftrightarrow> f = []"
  by (cases f) (simp_all add: csv_field_def)

lemma csv_field_hd:
  "csv_field f \<noteq> [] \<Longrightarrow> hd (csv_field f) \<noteq> CR \<and> hd (csv_field f) \<noteq> LF"
  by (cases f) (auto simp: csv_field_def csv_special_def csv_chars_distinct)

lemma str_join_hd:
  assumes "str_join [COMMA] (map csv_field fs) \<noteq> []"
  shows "hd (str_join [COMMA] (map csv_field fs)) \<noteq> CR
    \<and> hd (str_join [COMMA] (map csv_field fs)) \<noteq> LF"
proof (cases fs)
  case Nil
  with assms show ?thesis by simp
next
  case (Cons f gs)
  show ?thesis
  proof (cases "csv_field f = []")
    case True
    with assms Cons obtain g hs where "gs = g # hs" by (cases gs) simp_all
    with True Cons show ?thesis by (simp add: csv_chars_distinct)
  next
    case False
    then have "hd (str_join [COMMA] (map csv_field fs)) = hd (csv_field f)"
      using Cons by (cases gs) simp_all
    with csv_field_hd[OF False] show ?thesis by simp
  qed
qed

lemma str_join_empty:
  "str_join [COMMA] (map csv_field fs) = [] \<Longrightarrow> fs = [] \<or> fs = [[]]"
proof (cases fs)
  case Nil
  then show ?thesis by simp
next
  case (Cons f gs)
  assume "str_join [COMMA] (map csv_field fs) = []"
  with Cons show ?thesis by (cases gs) (simp_all add: csv_field_empty)
qed

lemma start_record_as_field:
  "c \<noteq> CR \<Longrightarrow> c \<noteq> LF \<Longrightarrow>
   csv_step (StartRecord, cur, row, out) c = csv_step (StartField, [], [], out) c"
  by (simp add: start_record_def)

lemma read_row:
  "foldl csv_step (StartRecord, [], [], out) (writerow fs) = (StartRecord, [], [], out @ [fs])"
proof (cases "str_join [COMMA] (map csv_field fs) = []")
  case True
  from str_join_empty[OF this] show ?thesis
  proof
    assume "fs = []"
    then show ?thesis
      by (simp add: writerow_def start_record_def csv_chars_distinct)
  next
    assume "fs = [[]]"
    then show ?thesis
      by (simp add: writerow_def csv_field_def start_record_def start_field_def
          csv_chars_distinct)
  qed
next
  case False
  then obtain c cs where r: "str_join [COMMA] (map csv_field fs) = c # cs"
    by (cases "str_join [COMMA] (map csv_field fs)") auto
  from False have fs: "fs \<noteq> []" by auto
  from str_join_hd[OF False] r have c: "c \<noteq> CR" "c \<noteq> LF" by simp_all
  have "foldl csv_step (StartRecord, [], [], out) (writerow fs) =
      foldl csv_step (csv_step (StartRecord, [], [], out) c) (cs @ [CR, LF])"
    by (simp add: writerow_def r)
  also have "\<dots> = foldl csv_step (csv_step (StartField, [], [], out) c) (cs @ [CR, LF])"
    by (simp only: start_record_as_field[OF c])
  also have "\<dots> = foldl csv_step (StartField, [], [], out)
      (str_join [COMMA] (map csv_field fs) @ [CR, LF])"
    by (simp add: r)
  also have "\<dots> = (StartRecord, [], [], out @ [fs])"
    using read_fields[OF fs, of "[]" out] by simp
  finally show ?thesis .
qed

lemma read_rows:
  "foldl csv_step (StartRecord, [], [], out) (concat (map writerow rs)) =
   (StartRecord, [], [], out @ rs)"
  by (induction rs arbitrary: out) (simp_all add: read_row)

lemma csv_parse_writerow: "csv_parse (concat (map writerow rs)) = rs"
  by (simp add: csv_parse_def read_rows)

lemma write_rows_concat:
  "write_rows d rs = concat (map writerow (map (\<lambda>r. [fst r, fst (snd r), snd (snd r), d]) rs))"
  by (induction d rs rule: write_rows.induct) simp_all

text \<open>
  C5.  When \<^verbatim>\<open>get_attendance_for_date(d)\<close> returns its rows and the destination can
  be opened for writing, \<^verbatim>\<open>export_csv\<close> returns and changes the file system only at the
  destination, which then holds a file whose text, read back as comma-delimited rows,
  is the header \<^verbatim>\<open>Student ID,Name,Status,Date\<close> followed by one row of student id,
  name, status and \<open>d\<close> for each row of the view, in the order of the view.
\<close>

theorem export_csv_format:
  assumes "fst (get_attendance_for_date d db) = Inr rs" and "fs path \<noteq> Denied"
  shows "\<exists>content. export_csv d path (db, fs) = (Inr (), db, fs(path := File content))
    \<and> csv_parse content =
        [''Student ID'', ''Name'', ''Status'', ''Date'']
        # map (\<lambda>r. [fst r, fst (snd r), snd (snd r), d]) rs"
proof -
  let ?content = "writerow [''Student ID'', ''Name'', ''Status'', ''Date''] @ write_rows d rs"
  have q: "get_attendance_for_date d db = (Inr rs, db)"
    using assms(1) by (simp add: get_attendance_for_date_def)
  have 1: "export_csv d path (db, fs) = (Inr (), db, fs(path := File ?content))"
    using assms(2) by (simp add: export_csv_def q)
  have "?content = concat (map writerow ([''Student ID'', ''Name'', ''Status'', ''Date'']
        # map (\<lambda>r. [fst r, fst (snd r), snd (snd r), d]) rs))"
    by (simp add: write_rows_concat)
  then have 2: "csv_parse ?content = [''Student ID'', ''Name'', ''Status'', ''Date'']
        # map (\<lambda>r. [fst r, fst (snd r), snd (snd r), d]) rs"
    by (simp only: csv_parse_writerow)
  show ?thesis
    by (rule exI[of _ ?content]) (intro conjI 1 2)
qed

theorem export_csv_format_witness:
  "(\<exists>content. export_csv ''2024-01-01'' ''out.csv''
       (run [AddStudent ''S2'' ''Zoe'', AddStudent ''S1'' ''Amy'',
             MarkAttendance ''2024-01-01'' [(''S1'', ''Present'')]], \<lambda>p. Vacant) =
      (Inr (),
       run [AddStudent ''S2'' ''Zoe'', AddStudent ''S1'' ''Amy'',
            MarkAttendance ''2024-01-01'' [(''S1'', ''Present'')]],
       (\<lambda>p. Vacant)(''out.csv'' := File content))
    \<and> csv_parse content =
       [[''Student ID'', ''Name'', ''Status'', ''Date''],
        [''S1'', ''Amy'', ''Present'', ''2024-01-01''],
        [''S2'', ''Zoe'', ''Absent'', ''2024-01-01'']])"
proof -
  let ?db = "run [AddStudent ''S2'' ''Zoe'', AddStudent ''S1'' ''Amy'',
             MarkAttendance ''2024-01-01'' [(''S1'', ''Present'')]]"
  have g: "fst (get_attendance_for_date ''2024-01-01'' ?db) =
      Inr [(''S1'', ''Amy'', ''Present''), (''S2'', ''Zoe'', ''Absent'')]"
    by code_simp
  have v: "(\<lambda>p. Vacant) ''out.csv'' \<noteq> Denied" by simp
  from export_csv_format[OF g v] show ?thesis by simp
qed

end
